theory Spec2Isabelle
  imports Main "HOL-Library.Word"
begin

unbundle bit_operations_syntax

section \<open>The OpenGL stream buffer of the renderer\<close>

text \<open>
  A shallow embedding of \<^verbatim>\<open>src/video_core/renderer_opengl/gl_stream_buffer.cpp\<close>:
  the class \<^verbatim>\<open>OGLStreamBuffer\<close> with its constructor, \<^verbatim>\<open>GetSize\<close>, \<^verbatim>\<open>Map\<close>
  (the spec's Reserve) and \<^verbatim>\<open>Unmap\<close> (the spec's Commit).

  \<^verbatim>\<open>GLsizeiptr\<close> and \<^verbatim>\<open>GLintptr\<close> are signed pointer-sized integers. They are
  modelled as \<open>int\<close>: signed overflow is undefined in C++, and lemma
  \<open>values_bounded\<close> below bounds what \<^verbatim>\<open>Map\<close> computes from a cursor inside the
  buffer by three times the capacity, so no such run on a capacity below \<open>2 ^ 61\<close>
  leaves the 64-bit range. Negative sizes and alignments are values of these types and
  are kept; the assertions accept them, and they can make the cursor negative. The one
  place where the code leaves signed arithmetic is the alignment of the cursor, done in
  \<^verbatim>\<open>size_t\<close>: the conversion of a negative cursor to unsigned 64 bits and back is
  modelled.
\<close>

subsection \<open>The OpenGL context\<close>

type_synonym GLenum = "32 word"
type_synonym GLbitfield = "32 word"
type_synonym GLuint = "32 word"
type_synonym GLsizeiptr = int
type_synonym GLintptr = int

text \<open>
  A pointer into the buffer's data store is the index of the byte it designates;
  \<open>None\<close> is \<^verbatim>\<open>nullptr\<close>.
\<close>

type_synonym u8_ptr = "int option"

definition ptr_add :: "u8_ptr \<Rightarrow> int \<Rightarrow> u8_ptr" where
  "ptr_add p n = (case p of None \<Rightarrow> None | Some a \<Rightarrow> Some (a + n))"

definition GL_MAP_WRITE_BIT :: GLbitfield where
  "GL_MAP_WRITE_BIT = 0x0002"

definition GL_MAP_INVALIDATE_BUFFER_BIT :: GLbitfield where
  "GL_MAP_INVALIDATE_BUFFER_BIT = 0x0008"

definition GL_MAP_FLUSH_EXPLICIT_BIT :: GLbitfield where
  "GL_MAP_FLUSH_EXPLICIT_BIT = 0x0010"

definition GL_MAP_UNSYNCHRONIZED_BIT :: GLbitfield where
  "GL_MAP_UNSYNCHRONIZED_BIT = 0x0020"

definition GL_MAP_PERSISTENT_BIT :: GLbitfield where
  "GL_MAP_PERSISTENT_BIT = 0x0040"

definition GL_MAP_COHERENT_BIT :: GLbitfield where
  "GL_MAP_COHERENT_BIT = 0x0080"

definition GL_STREAM_DRAW :: GLenum where
  "GL_STREAM_DRAW = 0x88E0"

text \<open>
  The calls the class makes on the context, with their arguments as passed.
\<close>

datatype gl_call =
    GenBuffers GLuint
  | BindBuffer GLenum GLuint
  | BufferStorage GLenum GLsizeiptr GLbitfield
  | BufferData GLenum GLsizeiptr GLenum
  | MapBufferRange GLenum GLintptr GLsizeiptr GLbitfield
  | UnmapBuffer GLenum
  | FlushMappedBufferRange GLenum GLintptr GLsizeiptr

text \<open>
  The context: the extension flag the constructor reads, the name the next
  \<^verbatim>\<open>glGenBuffers\<close> hands out, the calls made so far in order, the range
  \<open>(offset, length)\<close> of the buffer that is mapped now, and the ranges
  \<open>(first byte, length)\<close> of the buffer flushed so far. The offset of
  \<^verbatim>\<open>glFlushMappedBufferRange\<close> counts from the start of the mapped range.
\<close>

record gl_context =
  GLAD_GL_ARB_buffer_storage :: bool
  fresh_name :: GLuint
  calls :: "gl_call list"
  mapped_range :: "(int \<times> int) option"
  flushed :: "(int \<times> int) list"

definition glGenBuffers :: "gl_context \<Rightarrow> GLuint \<times> gl_context" where
  "glGenBuffers g = (fresh_name g, g\<lparr>calls := calls g @ [GenBuffers (fresh_name g)]\<rparr>)"

definition glBindBuffer :: "GLenum \<Rightarrow> GLuint \<Rightarrow> gl_context \<Rightarrow> gl_context" where
  "glBindBuffer target buffer g = g\<lparr>calls := calls g @ [BindBuffer target buffer]\<rparr>"

definition glBufferStorage ::
  "GLenum \<Rightarrow> GLsizeiptr \<Rightarrow> GLbitfield \<Rightarrow> gl_context \<Rightarrow> gl_context" where
  "glBufferStorage target sz flags g =
     g\<lparr>calls := calls g @ [BufferStorage target sz flags]\<rparr>"

definition glBufferData ::
  "GLenum \<Rightarrow> GLsizeiptr \<Rightarrow> GLenum \<Rightarrow> gl_context \<Rightarrow> gl_context" where
  "glBufferData target sz usage g =
     g\<lparr>calls := calls g @ [BufferData target sz usage]\<rparr>"

definition glMapBufferRange ::
  "GLenum \<Rightarrow> GLintptr \<Rightarrow> GLsizeiptr \<Rightarrow> GLbitfield \<Rightarrow> gl_context \<Rightarrow> u8_ptr \<times> gl_context" where
  "glMapBufferRange target offset len access g =
     (Some offset,
      g\<lparr>calls := calls g @ [MapBufferRange target offset len access],
        mapped_range := Some (offset, len)\<rparr>)"

definition glUnmapBuffer :: "GLenum \<Rightarrow> gl_context \<Rightarrow> gl_context" where
  "glUnmapBuffer target g =
     g\<lparr>calls := calls g @ [UnmapBuffer target], mapped_range := None\<rparr>"

definition glFlushMappedBufferRange ::
  "GLenum \<Rightarrow> GLintptr \<Rightarrow> GLsizeiptr \<Rightarrow> gl_context \<Rightarrow> gl_context" where
  "glFlushMappedBufferRange target offset len g =
     g\<lparr>calls := calls g @ [FlushMappedBufferRange target offset len],
       flushed := flushed g @
         (case mapped_range g of
            None \<Rightarrow> []
          | Some (start, l) \<Rightarrow> [(start + offset, len)])\<rparr>"

subsection \<open>The class\<close>

datatype error = AssertionFailed

text \<open>
  The members of \<^verbatim>\<open>OGLStreamBuffer\<close>, and with them the context its calls act on.
\<close>

record OGLStreamBuffer =
  gl_buffer :: GLuint
  gl_target :: GLenum
  coherent :: bool
  persistent :: bool
  buffer_pos :: GLintptr
  buffer_size :: GLsizeiptr
  mapped_offset :: GLintptr
  mapped_size :: GLsizeiptr
  mapped_ptr :: u8_ptr
  gl :: gl_context

text \<open>
  Modelled from the spec: the class declaration (\<^verbatim>\<open>gl_stream_buffer.h\<close>) with the
  initial values of the members is not among the sources. The cursor starts at 0 (the
  first reservation of the spec's example returns offset 0), no reservation and no
  mapping exist yet, and both mode flags start cleared: the spec's effective coherency
  is derived from the capability and the preference, and the preference is meaningful
  only with persistent mapping.
\<close>

definition default_members :: "gl_context \<Rightarrow> OGLStreamBuffer" where
  "default_members g =
     \<lparr>gl_buffer = 0, gl_target = 0, coherent = False, persistent = False,
      buffer_pos = 0, buffer_size = 0, mapped_offset = 0, mapped_size = 0,
      mapped_ptr = None, gl = g\<rparr>"

text \<open>
  Modelled from the spec: \<^verbatim>\<open>Common::AlignUp\<close> (\<^verbatim>\<open>common/alignment.h\<close>) is not
  among the sources. The spec has the cursor advanced to the next multiple of the
  alignment: 1000 aligned to 16 is 1008, and a cursor that is a multiple stays.
\<close>

definition AlignUp :: "int \<Rightarrow> int \<Rightarrow> int" where
  "AlignUp v a = v + (a - v mod a) mod a"

text \<open>
  The call \<^verbatim>\<open>Common::AlignUp<size_t>(buffer_pos, alignment)\<close> of line 56, whose result
  is assigned to the cursor: the cursor is converted to \<^verbatim>\<open>size_t\<close>, aligned there, and
  the result is converted back to \<^verbatim>\<open>GLintptr\<close>. Conversion to \<^verbatim>\<open>size_t\<close> is modulo
  \<open>2 ^ 64\<close>, unsigned arithmetic wraps at \<open>2 ^ 64\<close>, and the conversion back reads two's
  complement. A cursor that is not negative is its own conversion, and so is its aligned
  value while that is below \<open>2 ^ 63\<close>; there the model keeps the signed value unbounded,
  as it does everywhere else (lemma \<open>AlignUp_size_t_exact\<close> says where the two agree).
\<close>

definition to_size_t :: "int \<Rightarrow> int" where
  "to_size_t v = v mod 2 ^ 64"

definition to_GLintptr :: "int \<Rightarrow> GLintptr" where
  "to_GLintptr u = (if u mod 2 ^ 64 < 2 ^ 63 then u mod 2 ^ 64 else u mod 2 ^ 64 - 2 ^ 64)"

definition AlignUp_size_t :: "GLintptr \<Rightarrow> GLintptr \<Rightarrow> GLintptr" where
  "AlignUp_size_t pos alignment =
     (if 0 \<le> pos then AlignUp pos alignment
      else to_GLintptr (AlignUp (to_size_t pos) alignment))"

definition Hack :: "GLsizeiptr \<Rightarrow> GLsizeiptr" where
  "Hack sz = sz * 2"

text \<open>
  The constructor. \<^verbatim>\<open>gl_buffer.Create()\<close> takes a buffer name from the context.
\<close>

definition OGLStreamBuffer_ctor ::
  "gl_context \<Rightarrow> GLenum \<Rightarrow> GLsizeiptr \<Rightarrow> bool \<Rightarrow> OGLStreamBuffer" where
  "OGLStreamBuffer_ctor g target sz prefer_coherent =
     (let s0 = (default_members g)\<lparr>gl_target := target, buffer_size := sz\<rparr>;
          s1 = (case glGenBuffers (gl s0) of (h, g1) \<Rightarrow> s0\<lparr>gl_buffer := h, gl := g1\<rparr>);
          s2 = s1\<lparr>gl := glBindBuffer (gl_target s1) (gl_buffer s1) (gl s1)\<rparr>
      in if GLAD_GL_ARB_buffer_storage (gl s2) then
           let s3 = s2\<lparr>persistent := True\<rparr>;
               s4 = s3\<lparr>coherent := prefer_coherent\<rparr>;
               flags = GL_MAP_WRITE_BIT OR GL_MAP_PERSISTENT_BIT OR
                       (if coherent s4 then GL_MAP_COHERENT_BIT else 0);
               s5 = s4\<lparr>gl := glBufferStorage (gl_target s4) (Hack (buffer_size s4)) flags (gl s4)\<rparr>
           in case glMapBufferRange (gl_target s5) 0 (buffer_size s5)
                     (flags OR (if coherent s5 then 0 else GL_MAP_FLUSH_EXPLICIT_BIT)) (gl s5) of
                (p, g') \<Rightarrow> s5\<lparr>mapped_ptr := p, gl := g'\<rparr>
         else
           s2\<lparr>gl := glBufferData (gl_target s2) (Hack (buffer_size s2)) GL_STREAM_DRAW (gl s2)\<rparr>)"

definition GetHandle :: "OGLStreamBuffer \<Rightarrow> GLuint" where
  "GetHandle s = gl_buffer s"

definition GetSize :: "OGLStreamBuffer \<Rightarrow> GLsizeiptr" where
  "GetSize s = buffer_size s"

text \<open>
  \<^verbatim>\<open>Map\<close>: the two assertions, the reservation size, the alignment, the wraparound
  check, the mapping, and the triple returned (pointer, offset, invalidation flag).
\<close>

definition Map ::
  "OGLStreamBuffer \<Rightarrow> GLsizeiptr \<Rightarrow> GLintptr \<Rightarrow>
     error + ((u8_ptr \<times> GLintptr \<times> bool) \<times> OGLStreamBuffer)" where
  "Map s sz alignment =
     (if \<not> sz \<le> buffer_size s then Inl AssertionFailed
      else if \<not> alignment \<le> buffer_size s then Inl AssertionFailed
      else
        let s1 = s\<lparr>mapped_size := sz\<rparr>;
            s2 = (if alignment > 0
                  then s1\<lparr>buffer_pos := AlignUp_size_t (buffer_pos s1) alignment\<rparr> else s1);
            invalidate = (buffer_pos s2 + sz > buffer_size s2);
            s3 = (if invalidate then
                    let s' = s2\<lparr>buffer_pos := 0\<rparr>
                    in if persistent s' then s'\<lparr>gl := glUnmapBuffer (gl_target s') (gl s')\<rparr>
                       else s'
                  else s2);
            s4 = (if invalidate \<or> \<not> persistent s3 then
                    let flags = GL_MAP_WRITE_BIT OR
                          (if persistent s3 then GL_MAP_PERSISTENT_BIT else 0) OR
                          (if coherent s3 then GL_MAP_COHERENT_BIT else GL_MAP_FLUSH_EXPLICIT_BIT) OR
                          (if invalidate then GL_MAP_INVALIDATE_BUFFER_BIT
                           else GL_MAP_UNSYNCHRONIZED_BIT)
                    in case glMapBufferRange (gl_target s3) (buffer_pos s3)
                              (buffer_size s3 - buffer_pos s3) flags (gl s3) of
                         (p, g') \<Rightarrow> s3\<lparr>mapped_ptr := p, gl := g', mapped_offset := buffer_pos s3\<rparr>
                  else s3)
        in Inr ((ptr_add (mapped_ptr s4) (buffer_pos s4 - mapped_offset s4),
                 buffer_pos s4, invalidate), s4))"

text \<open>
  \<^verbatim>\<open>Unmap\<close>: the assertion, the flush when not coherent, the unmapping when not
  persistent, and the advance of the cursor.
\<close>

definition Unmap :: "OGLStreamBuffer \<Rightarrow> GLsizeiptr \<Rightarrow> error + OGLStreamBuffer" where
  "Unmap s sz =
     (if \<not> sz \<le> mapped_size s then Inl AssertionFailed
      else
        let s1 = (if \<not> coherent s
                  then s\<lparr>gl := glFlushMappedBufferRange (gl_target s)
                                  (buffer_pos s - mapped_offset s) sz (gl s)\<rparr>
                  else s);
            s2 = (if \<not> persistent s1
                  then s1\<lparr>gl := glUnmapBuffer (gl_target s1) (gl s1)\<rparr> else s1)
        in Inr (s2\<lparr>buffer_pos := buffer_pos s2 + sz\<rparr>))"

text \<open>
  The cursor after the alignment step of \<^verbatim>\<open>Map\<close> (lines 55 to 57).
\<close>

definition aligned_pos :: "OGLStreamBuffer \<Rightarrow> GLintptr \<Rightarrow> GLintptr" where
  "aligned_pos s alignment =
     (if alignment > 0 then AlignUp_size_t (buffer_pos s) alignment else buffer_pos s)"

subsection \<open>Callers\<close>

text \<open>
  A caller's sequence of calls, and what the caller sees of each: the offset and the
  invalidation flag of a \<^verbatim>\<open>Map\<close>, nothing of an \<^verbatim>\<open>Unmap\<close>. A failed assertion
  ends the run.
\<close>

datatype call = Reserve GLsizeiptr GLintptr | Commit GLsizeiptr

datatype outcome = Reserved GLintptr bool | Committed

fun exec :: "OGLStreamBuffer \<Rightarrow> call list \<Rightarrow> error + (outcome list \<times> OGLStreamBuffer)" where
  "exec s [] = Inr ([], s)"
| "exec s (Reserve sz alignment # cs) =
     (case Map s sz alignment of
        Inl e \<Rightarrow> Inl e
      | Inr ((p, off, invalidate), s') \<Rightarrow>
          (case exec s' cs of
             Inl e \<Rightarrow> Inl e
           | Inr (os, t) \<Rightarrow> Inr (Reserved off invalidate # os, t)))"
| "exec s (Commit sz # cs) =
     (case Unmap s sz of
        Inl e \<Rightarrow> Inl e
      | Inr s' \<Rightarrow>
          (case exec s' cs of
             Inl e \<Rightarrow> Inl e
           | Inr (os, t) \<Rightarrow> Inr (Committed # os, t)))"

definition outcomes :: "OGLStreamBuffer \<Rightarrow> call list \<Rightarrow> error + outcome list" where
  "outcomes s cs = map_sum id fst (exec s cs)"

text \<open>
  The calls of a sequence of pairs \<^verbatim>\<open>Map(size, alignment)\<close>, \<^verbatim>\<open>Unmap(size)\<close>, and
  the byte ranges \<open>(offset, size)\<close> that the reservations of a run were given.
\<close>

fun pair_calls :: "(GLsizeiptr \<times> GLintptr) list \<Rightarrow> call list" where
  "pair_calls [] = []"
| "pair_calls ((sz, alignment) # ps) = Reserve sz alignment # Commit sz # pair_calls ps"

fun reserved_ranges :: "call list \<Rightarrow> outcome list \<Rightarrow> (int \<times> int) list" where
  "reserved_ranges (Reserve sz alignment # cs) (Reserved off invalidate # os) =
     (off, sz) # reserved_ranges cs os"
| "reserved_ranges (c # cs) (ob # os) = reserved_ranges cs os"
| "reserved_ranges cs os = []"

definition bytes :: "int \<times> int \<Rightarrow> int set" where
  "bytes r = {fst r ..< fst r + snd r}"

text \<open>
  Where the cursor ends after a sequence of pairs when no call wraps: the sizes
  reserved, together with the padding that each alignment step inserts.
\<close>

fun padded_end :: "GLintptr \<Rightarrow> (GLsizeiptr \<times> GLintptr) list \<Rightarrow> GLintptr" where
  "padded_end c [] = c"
| "padded_end c ((sz, alignment) # ps) =
     padded_end ((if alignment > 0 then AlignUp c alignment else c) + sz) ps"

text \<open>
  A context to run examples in, with and without the extension.
\<close>

definition GL_ARRAY_BUFFER :: GLenum where
  "GL_ARRAY_BUFFER = 0x8892"

definition example_context :: "bool \<Rightarrow> gl_context" where
  "example_context ext =
     \<lparr>GLAD_GL_ARB_buffer_storage = ext, fresh_name = 1, calls = [],
      mapped_range = None, flushed = []\<rparr>"

text \<open>
  The size a call passes; whether a call wrapped; what the allocation reads of the
  members; the object after a run (the object itself when an assertion failed); and an
  object to run examples on.
\<close>

fun call_size :: "call \<Rightarrow> GLsizeiptr" where
  "call_size (Reserve sz alignment) = sz"
| "call_size (Commit sz) = sz"

fun wrapped :: "outcome \<Rightarrow> bool" where
  "wrapped (Reserved off invalidate) = invalidate"
| "wrapped Committed = False"

definition alloc_view :: "OGLStreamBuffer \<Rightarrow> GLintptr \<times> GLsizeiptr \<times> GLsizeiptr" where
  "alloc_view s = (buffer_pos s, buffer_size s, mapped_size s)"

definition after :: "OGLStreamBuffer \<Rightarrow> call list \<Rightarrow> OGLStreamBuffer" where
  "after s cs = (case exec s cs of Inl e \<Rightarrow> s | Inr (os, t) \<Rightarrow> t)"

definition example_buffer :: "bool \<Rightarrow> GLsizeiptr \<Rightarrow> bool \<Rightarrow> OGLStreamBuffer" where
  "example_buffer ext cap prefer_coherent =
     OGLStreamBuffer_ctor (example_context ext) GL_ARRAY_BUFFER cap prefer_coherent"

subsection \<open>Invariants\<close>

text \<open>
  The cursor lies in the buffer; and the offset the class keeps for the mapping is
  where the context has the mapping start.
\<close>

definition cursor_inv :: "OGLStreamBuffer \<Rightarrow> bool" where
  "cursor_inv s = (0 \<le> buffer_pos s \<and> buffer_pos s \<le> buffer_size s)"

definition mapping_inv :: "OGLStreamBuffer \<Rightarrow> bool" where
  "mapping_inv s =
     (case mapped_range (gl s) of
        None \<Rightarrow> \<not> persistent s
      | Some (start, l) \<Rightarrow> start = mapped_offset s)"

section \<open>Basic facts\<close>

lemmas gl_bits =
  GL_MAP_WRITE_BIT_def GL_MAP_INVALIDATE_BUFFER_BIT_def GL_MAP_FLUSH_EXPLICIT_BIT_def
  GL_MAP_UNSYNCHRONIZED_BIT_def GL_MAP_PERSISTENT_BIT_def GL_MAP_COHERENT_BIT_def

lemma AlignUp_dvd: "a dvd AlignUp v a"
  by (simp add: AlignUp_def mod_eq_0_iff_dvd [symmetric] mod_simps)

lemma AlignUp_ge: "0 < a \<Longrightarrow> v \<le> AlignUp v a"
  by (simp add: AlignUp_def)

lemma AlignUp_less: "0 < a \<Longrightarrow> AlignUp v a < v + a"
  by (simp add: AlignUp_def)

text \<open>
  \<open>AlignUp v a\<close> is the next multiple of \<open>a\<close>: no multiple lies between \<open>v\<close> and it.
\<close>

lemma AlignUp_least:
  assumes a: "0 < a" and d: "a dvd m" and le: "v \<le> m"
  shows "AlignUp v a \<le> m"
proof (rule ccontr)
  assume "\<not> AlignUp v a \<le> m"
  then have pos: "0 < AlignUp v a - m" by simp
  have "a dvd AlignUp v a - m" using d AlignUp_dvd [of a v] by simp
  then have "a \<le> AlignUp v a - m" using pos by (rule zdvd_imp_le)
  then show False using AlignUp_less [OF a, of v] le by simp
qed

lemma AlignUp_size_t_nonneg: "0 \<le> pos \<Longrightarrow> AlignUp_size_t pos a = AlignUp pos a"
  by (simp add: AlignUp_size_t_def)

text \<open>
  Where the aligned cursor is a value of the signed type, the model is the conversion
  to \<^verbatim>\<open>size_t\<close> and back, for a cursor of either sign.
\<close>

lemma AlignUp_size_t_exact:
  assumes "0 < a" and "0 \<le> pos \<longrightarrow> AlignUp pos a < 2 ^ 63"
  shows "AlignUp_size_t pos a = to_GLintptr (AlignUp (to_size_t pos) a)"
proof (cases "0 \<le> pos")
  case True
  with assms have r: "AlignUp pos a < 2 ^ 63" by simp
  have le: "pos \<le> AlignUp pos a" using assms(1) by (rule AlignUp_ge)
  have p: "to_size_t pos = pos" using True le r by (simp add: to_size_t_def)
  have "to_GLintptr (AlignUp pos a) = AlignUp pos a"
    using True le r by (simp add: to_GLintptr_def)
  then show ?thesis using True p by (simp add: AlignUp_size_t_def)
next
  case False
  then show ?thesis by (simp add: AlignUp_size_t_def)
qed

lemma aligned_pos_ge: "0 \<le> buffer_pos s \<Longrightarrow> buffer_pos s \<le> aligned_pos s al"
  by (simp add: aligned_pos_def AlignUp_size_t_nonneg AlignUp_ge)

lemma Map_Inl_iff:
  "isl (Map s sz al) \<longleftrightarrow> \<not> (sz \<le> buffer_size s \<and> al \<le> buffer_size s)"
  by (auto simp: Map_def Let_def)

lemma Unmap_Inl_iff: "isl (Unmap s sz) \<longleftrightarrow> \<not> sz \<le> mapped_size s"
  by (auto simp: Unmap_def Let_def)

lemma Map_Inr_fields:
  assumes "Map s sz al = Inr ((p, off, iv), s')"
  shows "sz \<le> buffer_size s" "al \<le> buffer_size s"
    "iv = (aligned_pos s al + sz > buffer_size s)"
    "off = (if iv then 0 else aligned_pos s al)"
    "buffer_pos s' = off" "buffer_size s' = buffer_size s" "mapped_size s' = sz"
    "persistent s' = persistent s" "coherent s' = coherent s" "gl_target s' = gl_target s"
  using assms
  by (auto simp: Map_def Let_def aligned_pos_def glMapBufferRange_def split: if_splits)

lemma Unmap_Inr_fields:
  assumes "Unmap s sz = Inr s'"
  shows "sz \<le> mapped_size s"
    "buffer_pos s' = buffer_pos s + sz" "buffer_size s' = buffer_size s"
    "mapped_size s' = mapped_size s" "mapped_offset s' = mapped_offset s"
    "persistent s' = persistent s" "coherent s' = coherent s" "gl_target s' = gl_target s"
  using assms
  by (auto simp: Unmap_def Let_def split: if_splits)

lemmas ctor_defs =
  OGLStreamBuffer_ctor_def Let_def default_members_def glGenBuffers_def glBindBuffer_def
  glBufferStorage_def glBufferData_def glMapBufferRange_def

lemma ctor_fields:
  "buffer_pos (OGLStreamBuffer_ctor g t cap pc) = 0"
  "buffer_size (OGLStreamBuffer_ctor g t cap pc) = cap"
  "mapped_size (OGLStreamBuffer_ctor g t cap pc) = 0"
  "mapped_offset (OGLStreamBuffer_ctor g t cap pc) = 0"
  "gl_target (OGLStreamBuffer_ctor g t cap pc) = t"
  "persistent (OGLStreamBuffer_ctor g t cap pc) = GLAD_GL_ARB_buffer_storage g"
  "coherent (OGLStreamBuffer_ctor g t cap pc) = (GLAD_GL_ARB_buffer_storage g \<and> pc)"
  by (simp_all add: ctor_defs)

lemma mapping_inv_ctor:
  "mapped_range g = None \<Longrightarrow> mapping_inv (OGLStreamBuffer_ctor g t cap pc)"
  by (simp add: mapping_inv_def ctor_defs)

lemma mapping_inv_Map:
  "mapping_inv s \<Longrightarrow> Map s sz al = Inr (r, s') \<Longrightarrow> mapping_inv s'"
  by (auto simp: mapping_inv_def Map_def Let_def glMapBufferRange_def glUnmapBuffer_def
      split: if_splits option.splits)

lemma mapping_inv_Unmap:
  "mapping_inv s \<Longrightarrow> Unmap s sz = Inr s' \<Longrightarrow> mapping_inv s'"
  by (auto simp: mapping_inv_def Unmap_def Let_def glFlushMappedBufferRange_def
      glUnmapBuffer_def split: if_splits option.splits)

lemma exec_Reserve_Inr:
  "exec s (Reserve sz al # cs) = Inr (os, t) \<Longrightarrow>
   \<exists>p off iv s' os'. Map s sz al = Inr ((p, off, iv), s') \<and>
     exec s' cs = Inr (os', t) \<and> os = Reserved off iv # os'"
  by (auto split: sum.splits prod.splits)

lemma exec_Commit_Inr:
  "exec s (Commit sz # cs) = Inr (os, t) \<Longrightarrow>
   \<exists>s' os'. Unmap s sz = Inr s' \<and> exec s' cs = Inr (os', t) \<and> os = Committed # os'"
  by (auto split: sum.splits prod.splits)

lemma mapping_inv_exec:
  "mapping_inv s \<Longrightarrow> exec s cs = Inr (os, t) \<Longrightarrow> mapping_inv t"
proof (induction cs arbitrary: s os)
  case Nil
  then show ?case by simp
next
  case (Cons c cs)
  show ?case
  proof (cases c)
    case (Reserve sz al)
    from Cons.prems(2) obtain r s' os' where m: "Map s sz al = Inr (r, s')"
      and e: "exec s' cs = Inr (os', t)"
      unfolding Reserve by (blast dest: exec_Reserve_Inr)
    from Cons.prems(1) m have "mapping_inv s'" by (rule mapping_inv_Map)
    then show ?thesis using e by (rule Cons.IH)
  next
    case (Commit sz)
    from Cons.prems(2) obtain s' os' where m: "Unmap s sz = Inr s'"
      and e: "exec s' cs = Inr (os', t)"
      unfolding Commit by (blast dest: exec_Commit_Inr)
    from Cons.prems(1) m have "mapping_inv s'" by (rule mapping_inv_Unmap)
    then show ?thesis using e by (rule Cons.IH)
  qed
qed

lemmas run_defs =
  Map_def Unmap_def AlignUp_def AlignUp_size_t_def to_size_t_def to_GLintptr_def
  aligned_pos_def ptr_add_def glUnmapBuffer_def
  glFlushMappedBufferRange_def example_context_def example_buffer_def outcomes_def after_def
  GL_ARRAY_BUFFER_def

lemma values_bounded:
  assumes "cursor_inv s" and "0 \<le> sz" and "sz \<le> buffer_size s" and "al \<le> buffer_size s"
  shows "0 \<le> aligned_pos s al" and "aligned_pos s al + sz \<le> 3 * buffer_size s"
proof -
  from assms(1) have c: "0 \<le> buffer_pos s" "buffer_pos s \<le> buffer_size s"
    by (simp_all add: cursor_inv_def)
  show "0 \<le> aligned_pos s al" using c(1) aligned_pos_ge [of s al] by simp
  show "aligned_pos s al + sz \<le> 3 * buffer_size s"
  proof (cases "0 < al")
    case True
    then have "aligned_pos s al < buffer_pos s + al"
      using c(1) by (simp add: aligned_pos_def AlignUp_size_t_nonneg AlignUp_less)
    then show ?thesis using c assms(3,4) by simp
  next
    case False
    then show ?thesis using c assms(2,3) by (simp add: aligned_pos_def)
  qed
qed

lemma exec_fixed_members:
  "exec s cs = Inr (os, t) \<Longrightarrow>
   coherent t = coherent s \<and> persistent t = persistent s \<and> gl_target t = gl_target s \<and>
   buffer_size t = buffer_size s"
proof (induction cs arbitrary: s os)
  case Nil
  then show ?case by simp
next
  case (Cons c cs)
  show ?case
  proof (cases c)
    case (Reserve sz al)
    from Cons.prems obtain p off iv s' os' where m: "Map s sz al = Inr ((p, off, iv), s')"
      and e: "exec s' cs = Inr (os', t)"
      unfolding Reserve by (blast dest: exec_Reserve_Inr)
    show ?thesis using Cons.IH [OF e] Map_Inr_fields(6,8,9,10) [OF m] by simp
  next
    case (Commit sz)
    from Cons.prems obtain s' os' where m: "Unmap s sz = Inr s'"
      and e: "exec s' cs = Inr (os', t)"
      unfolding Commit by (blast dest: exec_Commit_Inr)
    show ?thesis using Cons.IH [OF e] Unmap_Inr_fields(3,6,7,8) [OF m] by simp
  qed
qed

text \<open>
  Calls whose sizes are not negative keep the cursor from becoming negative.
\<close>

lemma exec_cursor_nonneg:
  "exec s cs = Inr (os, t) \<Longrightarrow> 0 \<le> buffer_pos s \<Longrightarrow> \<forall>c \<in> set cs. 0 \<le> call_size c \<Longrightarrow>
   0 \<le> buffer_pos t"
proof (induction cs arbitrary: s os)
  case Nil
  then show ?case by simp
next
  case (Cons c cs)
  from Cons.prems(3) have rest: "\<forall>c \<in> set cs. 0 \<le> call_size c" by simp
  show ?case
  proof (cases c)
    case (Reserve sz al)
    from Cons.prems(1) obtain p off iv s' os' where m: "Map s sz al = Inr ((p, off, iv), s')"
      and e: "exec s' cs = Inr (os', t)"
      unfolding Reserve by (blast dest: exec_Reserve_Inr)
    have "0 \<le> buffer_pos s'"
      using Map_Inr_fields(4,5) [OF m] aligned_pos_ge [OF Cons.prems(2), of al] Cons.prems(2)
      by (simp split: if_splits)
    with e show ?thesis using rest by (rule Cons.IH)
  next
    case (Commit sz)
    from Cons.prems(1) obtain s' os' where m: "Unmap s sz = Inr s'"
      and e: "exec s' cs = Inr (os', t)"
      unfolding Commit by (blast dest: exec_Commit_Inr)
    have "0 \<le> buffer_pos s'"
      using Unmap_Inr_fields(2) [OF m] Cons.prems(2,3) by (simp add: Commit)
    with e show ?thesis using rest by (rule Cons.IH)
  qed
qed

lemma pairs_ranges_ordered:
  assumes "exec s (pair_calls ps) = Inr (os, t)"
    and "\<forall>q \<in> set ps. 0 \<le> fst q"
    and "\<forall>ob \<in> set os. \<not> wrapped ob"
    and "0 \<le> buffer_pos s"
  shows "(\<forall>r \<in> set (reserved_ranges (pair_calls ps) os). buffer_pos s \<le> fst r) \<and>
         sorted_wrt (\<lambda>r r'. fst r + snd r \<le> fst r') (reserved_ranges (pair_calls ps) os) \<and>
         map snd (reserved_ranges (pair_calls ps) os) = map fst ps"
  using assms
proof (induction ps arbitrary: s os)
  case Nil
  then show ?case by simp
next
  case (Cons q ps)
  obtain sz al where q: "q = (sz, al)" by (cases q)
  from Cons.prems(1) obtain p off iv s1 os1 where m: "Map s sz al = Inr ((p, off, iv), s1)"
    and e1: "exec s1 (Commit sz # pair_calls ps) = Inr (os1, t)" and os: "os = Reserved off iv # os1"
    unfolding q pair_calls.simps by (blast dest: exec_Reserve_Inr)
  from e1 obtain s2 os2 where u: "Unmap s1 sz = Inr s2"
    and e2: "exec s2 (pair_calls ps) = Inr (os2, t)" and os1: "os1 = Committed # os2"
    by (blast dest: exec_Commit_Inr)
  from Cons.prems(3) have niv: "\<not> iv" and nw: "\<forall>ob \<in> set os2. \<not> wrapped ob"
    by (simp_all add: os os1)
  from Cons.prems(2) have sz: "0 \<le> sz" and szs: "\<forall>q \<in> set ps. 0 \<le> fst q"
    by (simp_all add: q)
  have off: "buffer_pos s \<le> off"
    using Map_Inr_fields(4) [OF m] niv aligned_pos_ge [OF Cons.prems(4), of al] by simp
  have pos2: "buffer_pos s2 = off + sz"
    using Map_Inr_fields(5) [OF m] Unmap_Inr_fields(2) [OF u] by simp
  have nn2: "0 \<le> buffer_pos s2" using pos2 off sz Cons.prems(4) by simp
  note ih = Cons.IH [OF e2 szs nw nn2]
  have rr: "reserved_ranges (pair_calls (q # ps)) os =
              (off, sz) # reserved_ranges (pair_calls ps) os2"
    by (simp add: q os os1)
  show ?case
    unfolding rr using ih off sz pos2 by (auto simp: q)
qed

lemma non_wrapping_pairs_increase:
  assumes "exec s (pair_calls ps) = Inr (os, t)"
    and "\<forall>q \<in> set ps. 0 < fst q"
    and "\<forall>ob \<in> set os. \<not> wrapped ob"
    and "0 \<le> buffer_pos s"
  shows "sorted_wrt (<) (map fst (reserved_ranges (pair_calls ps) os)) \<and>
         sorted_wrt (\<lambda>r r'. bytes r \<inter> bytes r' = {}) (reserved_ranges (pair_calls ps) os)"
proof -
  let ?rs = "reserved_ranges (pair_calls ps) os"
  have nn: "\<forall>q \<in> set ps. 0 \<le> fst q" using assms(2) by auto
  note o = pairs_ranges_ordered [OF assms(1) nn assms(3) assms(4)]
  from o have ord: "sorted_wrt (\<lambda>r r'. fst r + snd r \<le> fst r') ?rs" by simp
  from o have eq: "snd ` set ?rs = fst ` set ps" by (metis set_map)
  have pos: "\<forall>r \<in> set ?rs. 0 < snd r"
  proof
    fix r assume "r \<in> set ?rs"
    then have "snd r \<in> snd ` set ?rs" by simp
    then have "snd r \<in> fst ` set ps" by (simp only: eq)
    then show "0 < snd r" using assms(2) by auto
  qed
  have "sorted_wrt (\<lambda>r r'. fst r < fst r') ?rs"
    using ord pos by (auto intro!: sorted_wrt_mono_rel [OF _ ord])
  then have a: "sorted_wrt (<) (map fst ?rs)" by (simp add: sorted_wrt_map)
  have b: "sorted_wrt (\<lambda>r r'. bytes r \<inter> bytes r' = {}) ?rs"
    by (rule sorted_wrt_mono_rel [OF _ ord]) (auto simp: bytes_def)
  from a b show ?thesis ..
qed

lemma padded_end_ge: "\<forall>q \<in> set ps. 0 \<le> fst q \<Longrightarrow> c \<le> padded_end c ps"
proof (induction ps arbitrary: c)
  case Nil
  then show ?case by simp
next
  case (Cons q ps)
  obtain sz al where q: "q = (sz, al)" by (cases q)
  from Cons.prems have sz: "0 \<le> sz" and rest: "\<forall>q \<in> set ps. 0 \<le> fst q"
    by (simp_all add: q)
  have "c \<le> (if al > 0 then AlignUp c al else c) + sz"
    using sz AlignUp_ge [of al c] by (cases "0 < al") auto
  also have "\<dots> \<le> padded_end ((if al > 0 then AlignUp c al else c) + sz) ps"
    by (rule Cons.IH [OF rest])
  finally show ?case by (simp add: q)
qed

lemma padded_pairs_run:
  assumes "0 \<le> buffer_pos s"
    and "\<forall>q \<in> set ps. 0 \<le> fst q \<and> snd q \<le> buffer_size s"
    and "padded_end (buffer_pos s) ps \<le> buffer_size s"
  shows "\<exists>os t. exec s (pair_calls ps) = Inr (os, t) \<and> (\<forall>ob \<in> set os. \<not> wrapped ob)"
  using assms
proof (induction ps arbitrary: s)
  case Nil
  then show ?case by simp
next
  case (Cons q ps)
  obtain sz al where q: "q = (sz, al)" by (cases q)
  from Cons.prems(2) have sz: "0 \<le> sz" and al: "al \<le> buffer_size s"
    and rest: "\<forall>q \<in> set ps. 0 \<le> fst q \<and> snd q \<le> buffer_size s"
    by (simp_all add: q)
  from rest have nn: "\<forall>q \<in> set ps. 0 \<le> fst q" by simp
  have ap: "aligned_pos s al = (if al > 0 then AlignUp (buffer_pos s) al else buffer_pos s)"
    using Cons.prems(1) by (simp add: aligned_pos_def AlignUp_size_t_nonneg)
  have fit: "aligned_pos s al + sz \<le> buffer_size s"
    using padded_end_ge [OF nn, of "aligned_pos s al + sz"] Cons.prems(3)
    by (simp add: q ap)
  have a0: "0 \<le> aligned_pos s al"
    using Cons.prems(1) aligned_pos_ge [OF Cons.prems(1), of al] by simp
  have szc: "sz \<le> buffer_size s" using fit a0 by simp
  from szc al have "\<not> isl (Map s sz al)" by (simp add: Map_Inl_iff)
  then obtain p off iv s1 where m: "Map s sz al = Inr ((p, off, iv), s1)"
    by (cases "Map s sz al") auto
  note f = Map_Inr_fields [OF m]
  from f(3) fit have iv: "\<not> iv" by simp
  from f(4) iv have off: "off = aligned_pos s al" by simp
  from f(7) have "\<not> isl (Unmap s1 sz)" by (simp add: Unmap_Inl_iff)
  then obtain s2 where u: "Unmap s1 sz = Inr s2" by (cases "Unmap s1 sz") auto
  note h = Unmap_Inr_fields [OF u]
  have pos2: "buffer_pos s2 = aligned_pos s al + sz" using h(2) f(5) off by simp
  have cap2: "buffer_size s2 = buffer_size s" using h(3) f(6) by simp
  have "\<exists>os t. exec s2 (pair_calls ps) = Inr (os, t) \<and> (\<forall>ob \<in> set os. \<not> wrapped ob)"
  proof (rule Cons.IH)
    show "0 \<le> buffer_pos s2" using pos2 a0 sz by simp
    show "\<forall>q \<in> set ps. 0 \<le> fst q \<and> snd q \<le> buffer_size s2" using rest cap2 by simp
    show "padded_end (buffer_pos s2) ps \<le> buffer_size s2"
      using Cons.prems(3) pos2 cap2 by (simp add: q ap)
  qed
  then obtain os t where e: "exec s2 (pair_calls ps) = Inr (os, t)"
    and w: "\<forall>ob \<in> set os. \<not> wrapped ob" by blast
  have "exec s (pair_calls (q # ps)) = Inr (Reserved off iv # Committed # os, t)"
    using m u e by (simp add: q)
  moreover have "\<forall>ob \<in> set (Reserved off iv # Committed # os). \<not> wrapped ob"
    using w iv by simp
  ultimately show ?case by blast
qed

lemma Map_alloc_view:
  assumes "alloc_view s = alloc_view t"
  shows "map_sum id (\<lambda>(r, s'). (fst (snd r), snd (snd r), alloc_view s')) (Map s sz al) =
         map_sum id (\<lambda>(r, s'). (fst (snd r), snd (snd r), alloc_view s')) (Map t sz al)"
  using assms
  by (simp add: Map_def Let_def alloc_view_def glMapBufferRange_def)

lemma Unmap_alloc_view:
  assumes "alloc_view s = alloc_view t"
  shows "map_sum id alloc_view (Unmap s sz) = map_sum id alloc_view (Unmap t sz)"
  using assms
  by (simp add: Unmap_def Let_def alloc_view_def)

lemma outcomes_alloc_view:
  "alloc_view s = alloc_view t \<Longrightarrow> outcomes s cs = outcomes t cs"
proof (induction cs arbitrary: s t)
  case Nil
  then show ?case by (simp add: outcomes_def)
next
  case (Cons c cs)
  show ?case
  proof (cases c)
    case (Reserve sz al)
    show ?thesis
    proof (cases "Map s sz al")
      case (Inl e)
      with Map_alloc_view [OF Cons.prems, of sz al] have "Map t sz al = Inl e"
        by (cases "Map t sz al") auto
      with Inl show ?thesis by (simp add: outcomes_def Reserve)
    next
      case (Inr x)
      obtain p off iv s' where x: "x = ((p, off, iv), s')" by (cases x) auto
      with Inr Map_alloc_view [OF Cons.prems, of sz al]
      obtain p' t' where mt: "Map t sz al = Inr ((p', off, iv), t')"
        and av: "alloc_view s' = alloc_view t'"
        by (cases "Map t sz al") auto
      from Cons.IH [OF av] have "outcomes s' cs = outcomes t' cs" .
      then show ?thesis using Inr x mt
        by (cases "exec s' cs"; cases "exec t' cs") (auto simp: outcomes_def Reserve)
    qed
  next
    case (Commit sz)
    show ?thesis
    proof (cases "Unmap s sz")
      case (Inl e)
      with Unmap_alloc_view [OF Cons.prems, of sz] have "Unmap t sz = Inl e"
        by (cases "Unmap t sz") auto
      with Inl show ?thesis by (simp add: outcomes_def Commit)
    next
      case (Inr s')
      with Unmap_alloc_view [OF Cons.prems, of sz]
      obtain t' where mt: "Unmap t sz = Inr t'" and av: "alloc_view s' = alloc_view t'"
        by (cases "Unmap t sz") auto
      from Cons.IH [OF av] have "outcomes s' cs = outcomes t' cs" .
      then show ?thesis using Inr mt
        by (cases "exec s' cs"; cases "exec t' cs") (auto simp: outcomes_def Commit)
    qed
  qed
qed

lemma Map_Unmap_flush:
  assumes "mapping_inv s" and "Map s sz alignment = Inr ((p, off, invalidate), s1)"
    and "Unmap s1 csz = Inr s2"
  shows "flushed (gl s2) = flushed (gl s1) @ (if coherent s then [] else [(off, csz)])"
    and "calls (gl s2) = calls (gl s1) @
           (if coherent s then []
            else [FlushMappedBufferRange (gl_target s) (off - mapped_offset s1) csz]) @
           (if persistent s then [] else [UnmapBuffer (gl_target s)])"
proof -
  have mi: "mapping_inv s1" using assms(1,2) by (rule mapping_inv_Map)
  have pos: "buffer_pos s1 = off" and co: "coherent s1 = coherent s"
    and pe: "persistent s1 = persistent s" and tg: "gl_target s1 = gl_target s"
    using Map_Inr_fields [OF assms(2)] by simp_all
  have mr: "\<exists>l. mapped_range (gl s1) = Some (mapped_offset s1, l)"
    using assms(1,2)
    by (auto simp: mapping_inv_def Map_def Let_def glMapBufferRange_def glUnmapBuffer_def
        split: if_splits option.splits)
  then obtain l where l: "mapped_range (gl s1) = Some (mapped_offset s1, l)" ..
  show "flushed (gl s2) = flushed (gl s1) @ (if coherent s then [] else [(off, csz)])"
    using assms(3) l pos co
    by (auto simp: Unmap_def Let_def glFlushMappedBufferRange_def glUnmapBuffer_def
        split: if_splits)
  show "calls (gl s2) = calls (gl s1) @
           (if coherent s then []
            else [FlushMappedBufferRange (gl_target s) (off - mapped_offset s1) csz]) @
           (if persistent s then [] else [UnmapBuffer (gl_target s)])"
    using assms(3) pos co pe tg
    by (auto simp: Unmap_def Let_def glFlushMappedBufferRange_def glUnmapBuffer_def
        split: if_splits)
qed

section \<open>The claims\<close>

subsection \<open>The wraparound check\<close>

text \<open>
  C1. Every \<^verbatim>\<open>Map(size, alignment)\<close> with \<open>size \<le> capacity\<close> and
  \<open>alignment \<le> capacity\<close> returns. When the cursor after the alignment step plus the
  size exceeds the capacity, the cursor is reset to 0, the offset returned is 0 and the
  invalidation flag is true; otherwise the cursor stays where the alignment left it, the
  offset returned is that cursor and the flag is false. The flag is a value of the call:
  it is true exactly when the aligned cursor plus the size is strictly greater than the
  capacity.
\<close>

theorem Map_wraparound:
  assumes "sz \<le> buffer_size s" and "alignment \<le> buffer_size s"
  shows "\<exists>p s'. Map s sz alignment =
           Inr ((p, (if aligned_pos s alignment + sz > buffer_size s then 0
                     else aligned_pos s alignment),
                 aligned_pos s alignment + sz > buffer_size s), s') \<and>
           buffer_pos s' =
             (if aligned_pos s alignment + sz > buffer_size s then 0
              else aligned_pos s alignment)"
  using assms by (simp add: Map_def Let_def aligned_pos_def glMapBufferRange_def)

theorem Map_wraparound_witness:
  "(1000 :: int) \<le> buffer_size (after (example_buffer True 1024 False) [Reserve 100 0, Commit 100]) \<and>
   (924 :: int) \<le> buffer_size (after (example_buffer True 1024 False) [Reserve 100 0, Commit 100]) \<and>
   (0 :: int) \<le> buffer_size (after (example_buffer True 1024 False) [Reserve 100 0, Commit 100]) \<and>
   (\<exists>p s'. Map (after (example_buffer True 1024 False) [Reserve 100 0, Commit 100]) 1000 0 =
              Inr ((p, 0, True), s') \<and> buffer_pos s' = 0) \<and>
   (\<exists>p s'. Map (after (example_buffer True 1024 False) [Reserve 100 0, Commit 100]) 924 0 =
              Inr ((p, 100, False), s') \<and> buffer_pos s' = 100)"
  using
    Map_wraparound [of 1000 "after (example_buffer True 1024 False) [Reserve 100 0, Commit 100]" 0]
    Map_wraparound [of 924 "after (example_buffer True 1024 False) [Reserve 100 0, Commit 100]" 0]
  by (simp add: run_defs ctor_defs)

subsection \<open>The order of the calls\<close>

text \<open>
  C2, as the code has it. The class keeps no record of an outstanding reservation and
  checks no order of calls. \<^verbatim>\<open>Map\<close> fails its assertions exactly when the size or the
  alignment exceeds the capacity, \<^verbatim>\<open>Unmap\<close> exactly when its size exceeds the size of
  the most recent \<^verbatim>\<open>Map\<close>, and neither changes the capacity. A second \<^verbatim>\<open>Map\<close> before
  the \<^verbatim>\<open>Unmap\<close>, and an \<^verbatim>\<open>Unmap\<close> with no reservation outstanding, are accepted when
  they are within these bounds.
\<close>

theorem contract_checks:
  "isl (Map s sz alignment) = (\<not> (sz \<le> buffer_size s \<and> alignment \<le> buffer_size s)) \<and>
   isl (Unmap s csz) = (\<not> csz \<le> mapped_size s) \<and>
   (Map s sz alignment = Inr (r, s') \<longrightarrow> mapped_size s' = sz \<and> buffer_size s' = buffer_size s) \<and>
   (Unmap s csz = Inr s'' \<longrightarrow> mapped_size s'' = mapped_size s \<and> buffer_size s'' = buffer_size s)"
  using Map_Inr_fields(6,7) [of s sz alignment "fst r" "fst (snd r)" "snd (snd r)" s']
    Unmap_Inr_fields(3,4) [of s csz s'']
  by (simp add: Map_Inl_iff Unmap_Inl_iff)

theorem contract_checks_witness:
  "\<not> isl (Map (after (example_buffer True 10 False) [Reserve 6 0]) 4 0) \<and>
   \<not> isl (Unmap (after (example_buffer True 10 False) [Reserve 6 0]) 6) \<and>
   mapped_size (after (example_buffer True 10 False) [Reserve 6 0, Reserve 4 0]) = 4 \<and>
   mapped_size (after (example_buffer True 10 False) [Reserve 6 0, Commit 6]) = 6 \<and>
   isl (Map (after (example_buffer True 10 False) [Reserve 6 0]) 11 0) \<and>
   isl (Unmap (after (example_buffer True 10 False) [Reserve 6 0]) 7)"
proof -
  let ?s = "after (example_buffer True 10 False) [Reserve 6 0]"
  let ?s1 = "after (example_buffer True 10 False) [Reserve 6 0, Reserve 4 0]"
  let ?s2 = "after (example_buffer True 10 False) [Reserve 6 0, Commit 6]"
  have m: "Map ?s 4 0 = Inr ((Some 0, 0, False), ?s1)"
    by (simp add: run_defs ctor_defs)
  have u: "Unmap ?s 6 = Inr ?s2"
    by (simp add: run_defs ctor_defs)
  have b: "buffer_size ?s = 10" "mapped_size ?s = 6"
    by (simp_all add: run_defs ctor_defs)
  show ?thesis
    using contract_checks [of ?s 4 0 6 "(Some 0, 0, False)" ?s1 ?s2]
      contract_checks [of ?s 11 0 7 "(Some 0, 0, False)" ?s1 ?s2] m u b
    by simp
qed

text \<open>
  C2 as stated fails: with capacity 10, in persistent and in fallback mode, two calls
  \<^verbatim>\<open>Map(6, 0)\<close> in a row both return offset 0; after \<^verbatim>\<open>Map(6, 0)\<close>, \<^verbatim>\<open>Unmap(6)\<close> a
  second \<^verbatim>\<open>Unmap(6)\<close> is accepted; and \<^verbatim>\<open>Unmap(0)\<close> is accepted on a new object.
\<close>

theorem call_order_unchecked_counterexample:
  "outcomes (example_buffer True 10 False) [Reserve 6 0, Reserve 6 0] =
     Inr [Reserved 0 False, Reserved 0 False] \<and>
   outcomes (example_buffer False 10 False) [Reserve 6 0, Reserve 6 0] =
     Inr [Reserved 0 False, Reserved 0 False] \<and>
   outcomes (example_buffer True 10 False) [Reserve 6 0, Commit 6, Commit 6] =
     Inr [Reserved 0 False, Committed, Committed] \<and>
   outcomes (example_buffer True 10 False) [Commit 0] = Inr [Committed]"
  by (simp add: run_defs ctor_defs)

subsection \<open>Offsets of successive reservations\<close>

text \<open>
  C3, as the code has it. Take a sequence of pairs \<^verbatim>\<open>Map(size, alignment)\<close>,
  \<^verbatim>\<open>Unmap(size)\<close> with positive sizes and alignments within the capacity, issued at a
  cursor that is not negative (0 after construction). When the reserved sizes together
  with the padding that the alignment steps insert never exceed the capacity (sizes being
  positive, it is enough that they do not at the end), the run neither fails nor wraps,
  the offsets returned strictly increase, and the reserved ranges
  \<open>[offset, offset + size)\<close> are pairwise disjoint.
\<close>

theorem padded_pairs_increase:
  assumes "0 \<le> buffer_pos s"
    and "\<forall>q \<in> set ps. 0 < fst q \<and> snd q \<le> buffer_size s"
    and "padded_end (buffer_pos s) ps \<le> buffer_size s"
  shows "\<exists>os t. exec s (pair_calls ps) = Inr (os, t) \<and>
           (\<forall>ob \<in> set os. \<not> wrapped ob) \<and>
           sorted_wrt (<) (map fst (reserved_ranges (pair_calls ps) os)) \<and>
           sorted_wrt (\<lambda>r r'. bytes r \<inter> bytes r' = {}) (reserved_ranges (pair_calls ps) os)"
proof -
  from assms(2) have nn: "\<forall>q \<in> set ps. 0 \<le> fst q \<and> snd q \<le> buffer_size s" by auto
  from assms(2) have pos: "\<forall>q \<in> set ps. 0 < fst q" by auto
  from padded_pairs_run [OF assms(1) nn assms(3)]
  obtain os t where e: "exec s (pair_calls ps) = Inr (os, t)"
    and w: "\<forall>ob \<in> set os. \<not> wrapped ob" by blast
  from non_wrapping_pairs_increase [OF e pos w assms(1)] e w show ?thesis by blast
qed

theorem padded_pairs_increase_witness:
  "padded_end 0 [(40, 0), (40, 16)] = 88 \<and>
   exec (example_buffer True 100 False) (pair_calls [(40, 0), (40, 16)]) =
     Inr ([Reserved 0 False, Committed, Reserved 48 False, Committed],
          after (example_buffer True 100 False) (pair_calls [(40, 0), (40, 16)])) \<and>
   reserved_ranges (pair_calls [(40, 0), (40, 16)])
     [Reserved 0 False, Committed, Reserved 48 False, Committed] = [(0, 40), (48, 40)] \<and>
   sorted_wrt (<) (map fst [(0, 40), (48, 40 :: int)] :: int list) \<and>
   bytes (0, 40) \<inter> bytes (48, 40) = {}"
proof -
  let ?s = "example_buffer True 100 False"
  let ?ps = "[(40, 0), (40, 16)] :: (int \<times> int) list"
  have b: "buffer_pos ?s = 0" "buffer_size ?s = 100"
    by (simp_all add: example_buffer_def ctor_fields)
  have pe: "padded_end 0 ?ps = 88" by (simp add: AlignUp_def)
  have h1: "0 \<le> buffer_pos ?s" by (simp add: b)
  have h2: "\<forall>q \<in> set ?ps. 0 < fst q \<and> snd q \<le> buffer_size ?s" by (simp add: b)
  have h3: "padded_end (buffer_pos ?s) ?ps \<le> buffer_size ?s" by (simp add: b AlignUp_def)
  have e: "exec ?s (pair_calls ?ps) =
     Inr ([Reserved 0 False, Committed, Reserved 48 False, Committed], after ?s (pair_calls ?ps))"
    by (simp add: run_defs ctor_defs)
  from padded_pairs_increase [OF h1 h2 h3] e
  have "sorted_wrt (<) (map fst (reserved_ranges (pair_calls ?ps)
          [Reserved 0 False, Committed, Reserved 48 False, Committed])) \<and>
        sorted_wrt (\<lambda>r r'. bytes r \<inter> bytes r' = {}) (reserved_ranges (pair_calls ?ps)
          [Reserved 0 False, Committed, Reserved 48 False, Committed])"
    by auto
  then show ?thesis using e pe by simp
qed

text \<open>
  C3 as stated fails. With capacity 100 the pairs of sizes 40 and 40, the second aligned
  to 64, reserve 80 bytes in all; the second cursor is aligned from 40 to 64, 64 + 40
  exceeds 100, the call wraps, and both reservations are the range \<open>[0, 40)\<close>. And two
  reservations of size 0 both get offset 0.
\<close>

theorem padding_wraps_counterexample:
  "sum_list (map fst [(40, 0), (40, 64)]) \<le> GetSize (example_buffer True 100 False) \<and>
   \<not> padded_end 0 [(40, 0), (40, 64)] \<le> GetSize (example_buffer True 100 False) \<and>
   outcomes (example_buffer True 100 False) (pair_calls [(40, 0), (40, 64)]) =
     Inr [Reserved 0 False, Committed, Reserved 0 True, Committed] \<and>
   reserved_ranges (pair_calls [(40, 0), (40, 64)])
     [Reserved 0 False, Committed, Reserved 0 True, Committed] = [(0, 40), (0, 40)] \<and>
   \<not> sorted_wrt (<) (map fst [(0, 40), (0, 40 :: int)] :: int list) \<and>
   bytes (0, 40) \<inter> bytes (0, 40) \<noteq> {} \<and>
   sum_list (map fst [(0, 0), (0, 0)]) \<le> GetSize (example_buffer True 100 False) \<and>
   outcomes (example_buffer True 100 False) (pair_calls [(0, 0), (0, 0)]) =
     Inr [Reserved 0 False, Committed, Reserved 0 False, Committed]"
  by (simp add: run_defs ctor_defs GetSize_def bytes_def)

subsection \<open>The mapping made by a reservation\<close>

text \<open>
  C4. In persistent mode \<^verbatim>\<open>Map\<close> unmaps and maps the whole logical buffer
  \<open>[0, capacity)\<close> with the invalidate-buffer bit exactly when the call wraps; when it
  does not wrap it makes no call on the context and keeps the mapping it has. In fallback
  mode every \<^verbatim>\<open>Map\<close> makes one mapping of \<open>[offset, capacity)\<close>, \<open>offset\<close> being the
  cursor it returns, with the invalidate-buffer bit when the call wraps and the
  unsynchronized bit when it does not.
\<close>

theorem Map_mapping_rule:
  assumes "Map s sz alignment = Inr ((p, off, invalidate), s')"
  shows "(persistent s \<and> invalidate \<longrightarrow>
            (\<exists>flags. calls (gl s') = calls (gl s) @
                 [UnmapBuffer (gl_target s), MapBufferRange (gl_target s) 0 (buffer_size s) flags] \<and>
               flags AND GL_MAP_INVALIDATE_BUFFER_BIT \<noteq> 0 \<and>
               mapped_range (gl s') = Some (0, buffer_size s))) \<and>
         (persistent s \<and> \<not> invalidate \<longrightarrow>
            gl s' = gl s \<and> mapped_ptr s' = mapped_ptr s \<and> mapped_offset s' = mapped_offset s) \<and>
         (\<not> persistent s \<longrightarrow>
            (\<exists>flags. calls (gl s') = calls (gl s) @
                 [MapBufferRange (gl_target s) off (buffer_size s - off) flags] \<and>
               (flags AND GL_MAP_INVALIDATE_BUFFER_BIT \<noteq> 0) = invalidate \<and>
               (flags AND GL_MAP_UNSYNCHRONIZED_BIT \<noteq> 0) = (\<not> invalidate) \<and>
               mapped_range (gl s') = Some (off, buffer_size s - off)))"
  using assms
  by (auto simp: Map_def Let_def glMapBufferRange_def glUnmapBuffer_def gl_bits
      split: if_splits)

theorem Map_mapping_rule_witness:
  "(\<exists>flags. calls (gl (after (example_buffer True 1024 False)
                [Reserve 100 0, Commit 100, Reserve 1000 0])) =
      calls (gl (after (example_buffer True 1024 False) [Reserve 100 0, Commit 100])) @
        [UnmapBuffer GL_ARRAY_BUFFER, MapBufferRange GL_ARRAY_BUFFER 0 1024 flags] \<and>
      flags AND GL_MAP_INVALIDATE_BUFFER_BIT \<noteq> 0) \<and>
   gl (after (example_buffer True 1024 False) [Reserve 100 0, Commit 100, Reserve 100 0]) =
     gl (after (example_buffer True 1024 False) [Reserve 100 0, Commit 100]) \<and>
   (\<exists>flags. calls (gl (after (example_buffer False 1024 False)
                [Reserve 100 0, Commit 100, Reserve 100 0])) =
      calls (gl (after (example_buffer False 1024 False) [Reserve 100 0, Commit 100])) @
        [MapBufferRange GL_ARRAY_BUFFER 100 924 flags] \<and>
      flags AND GL_MAP_UNSYNCHRONIZED_BIT \<noteq> 0)"
proof -
  let ?p = "after (example_buffer True 1024 False) [Reserve 100 0, Commit 100]"
  let ?p1 = "after (example_buffer True 1024 False) [Reserve 100 0, Commit 100, Reserve 1000 0]"
  let ?p2 = "after (example_buffer True 1024 False) [Reserve 100 0, Commit 100, Reserve 100 0]"
  let ?f = "after (example_buffer False 1024 False) [Reserve 100 0, Commit 100]"
  let ?f1 = "after (example_buffer False 1024 False) [Reserve 100 0, Commit 100, Reserve 100 0]"
  have m1: "Map ?p 1000 0 = Inr ((Some 0, 0, True), ?p1)"
    by (simp add: run_defs ctor_defs)
  have m2: "Map ?p 100 0 = Inr ((Some 100, 100, False), ?p2)"
    by (simp add: run_defs ctor_defs)
  have m3: "Map ?f 100 0 = Inr ((Some 100, 100, False), ?f1)"
    by (simp add: run_defs ctor_defs)
  have b: "persistent ?p" "\<not> persistent ?f" "gl_target ?p = GL_ARRAY_BUFFER"
    "gl_target ?f = GL_ARRAY_BUFFER" "buffer_size ?p = 1024" "buffer_size ?f = 1024"
    by (simp_all add: run_defs ctor_defs)
  show ?thesis
    using Map_mapping_rule [OF m1] Map_mapping_rule [OF m2] Map_mapping_rule [OF m3] b
    by auto
qed

subsection \<open>The flush of a commit\<close>

text \<open>
  C5. In every state reached from the constructor by any calls (the new buffer not being
  mapped when it is constructed), a \<^verbatim>\<open>Map\<close> that returns \<open>offset\<close> followed by
  \<^verbatim>\<open>Unmap(size)\<close> flushes, when the object is not coherent, exactly the bytes \<open>[offset, offset + size)\<close> of the buffer: one call of
  \<^verbatim>\<open>glFlushMappedBufferRange\<close>, whose offset counts from the start of the mapping. When
  the object is coherent, \<^verbatim>\<open>Unmap\<close> makes no flush.
\<close>

theorem Unmap_flushes_committed_bytes:
  assumes "mapped_range g = None"
    and "exec (OGLStreamBuffer_ctor g target cap prefer_coherent) cs = Inr (os, s)"
    and "Map s sz alignment = Inr ((p, off, invalidate), s1)"
    and "Unmap s1 csz = Inr s2"
  shows "flushed (gl s2) = flushed (gl s1) @ (if coherent s then [] else [(off, csz)]) \<and>
         calls (gl s2) = calls (gl s1) @
           (if coherent s then []
            else [FlushMappedBufferRange (gl_target s) (off - mapped_offset s1) csz]) @
           (if persistent s then [] else [UnmapBuffer (gl_target s)]) \<and>
         bytes (off, csz) = {off ..< off + csz}"
proof -
  have "mapping_inv (OGLStreamBuffer_ctor g target cap prefer_coherent)"
    using assms(1) by (rule mapping_inv_ctor)
  then have "mapping_inv s" using assms(2) by (rule mapping_inv_exec)
  then show ?thesis using Map_Unmap_flush [OF _ assms(3,4)] by (simp add: bytes_def)
qed

theorem Unmap_flushes_committed_bytes_witness:
  "flushed (gl (after (example_buffer False 1024 False)
      [Reserve 100 0, Commit 100, Reserve 60 16, Commit 50])) =
     flushed (gl (after (example_buffer False 1024 False)
       [Reserve 100 0, Commit 100, Reserve 60 16])) @ [(112, 50)] \<and>
   flushed (gl (after (example_buffer True 1024 False)
      [Reserve 100 0, Commit 100, Reserve 60 16, Commit 50])) =
     flushed (gl (after (example_buffer True 1024 False)
       [Reserve 100 0, Commit 100, Reserve 60 16])) @ [(112, 50)] \<and>
   flushed (gl (after (example_buffer True 1024 True)
      [Reserve 100 0, Commit 100, Reserve 60 16, Commit 50])) =
     flushed (gl (after (example_buffer True 1024 True)
       [Reserve 100 0, Commit 100, Reserve 60 16]))"
proof -
  have n: "mapped_range (example_context False) = None" "mapped_range (example_context True) = None"
    by (simp_all add: example_context_def)
  have e: "exec (OGLStreamBuffer_ctor (example_context ext) GL_ARRAY_BUFFER 1024 pc)
             [Reserve 100 0, Commit 100] =
           Inr ([Reserved 0 False, Committed],
                after (example_buffer ext 1024 pc) [Reserve 100 0, Commit 100])" for ext pc
    by (cases ext; cases pc) (simp_all add: run_defs ctor_defs)
  have m: "Map (after (example_buffer ext 1024 pc) [Reserve 100 0, Commit 100]) 60 16 =
           Inr ((Some 112, 112, False),
                after (example_buffer ext 1024 pc) [Reserve 100 0, Commit 100, Reserve 60 16])"
    for ext pc
    by (cases ext; cases pc) (simp_all add: run_defs ctor_defs)
  have u: "Unmap (after (example_buffer ext 1024 pc) [Reserve 100 0, Commit 100, Reserve 60 16]) 50 =
           Inr (after (example_buffer ext 1024 pc)
                  [Reserve 100 0, Commit 100, Reserve 60 16, Commit 50])" for ext pc
    by (cases ext; cases pc) (simp_all add: run_defs ctor_defs)
  have c: "\<not> coherent (after (example_buffer False 1024 False) [Reserve 100 0, Commit 100])"
    "\<not> coherent (after (example_buffer True 1024 False) [Reserve 100 0, Commit 100])"
    "coherent (after (example_buffer True 1024 True) [Reserve 100 0, Commit 100])"
    by (simp_all add: run_defs ctor_defs)
  show ?thesis
    using Unmap_flushes_committed_bytes [OF n(1) e m u]
      Unmap_flushes_committed_bytes [OF n(2) e m u, of False]
      Unmap_flushes_committed_bytes [OF n(2) e m u, of True] c
    by simp
qed

subsection \<open>Independence of the mapping mode\<close>

text \<open>
  C6. For the same sequence of \<^verbatim>\<open>Map\<close> and \<^verbatim>\<open>Unmap\<close> calls, in any order, an object
  constructed with the extension (persistent mode) and one constructed without it
  (fallback mode) with the same capacity give the same outcomes: the same offsets and
  invalidation flags, and a failed assertion at the same call. The context, the target
  and the coherence preference do not matter.
\<close>

theorem outcomes_independent_of_mapping_mode:
  "outcomes (OGLStreamBuffer_ctor (g\<lparr>GLAD_GL_ARB_buffer_storage := True\<rparr>) target cap pc) cs =
   outcomes (OGLStreamBuffer_ctor (g'\<lparr>GLAD_GL_ARB_buffer_storage := False\<rparr>) target' cap pc') cs"
  by (rule outcomes_alloc_view) (simp add: alloc_view_def ctor_fields)

theorem outcomes_independent_of_mapping_mode_witness:
  "outcomes (example_buffer True 1024 True)
     [Reserve 100 0, Commit 100, Reserve 1000 0, Commit 1000, Reserve 50 16] =
     Inr [Reserved 0 False, Committed, Reserved 0 True, Committed, Reserved 0 True] \<and>
   outcomes (example_buffer False 1024 False)
     [Reserve 100 0, Commit 100, Reserve 1000 0, Commit 1000, Reserve 50 16] =
     Inr [Reserved 0 False, Committed, Reserved 0 True, Committed, Reserved 0 True]"
proof -
  have a: "outcomes (example_buffer True 1024 True)
     [Reserve 100 0, Commit 100, Reserve 1000 0, Commit 1000, Reserve 50 16] =
     Inr [Reserved 0 False, Committed, Reserved 0 True, Committed, Reserved 0 True]"
    by (simp add: run_defs ctor_defs)
  have x: "example_context True = (example_context True)\<lparr>GLAD_GL_ARB_buffer_storage := True\<rparr>"
    "example_context False = (example_context True)\<lparr>GLAD_GL_ARB_buffer_storage := False\<rparr>"
    by (simp_all add: example_context_def)
  have "outcomes (example_buffer True 1024 True)
          [Reserve 100 0, Commit 100, Reserve 1000 0, Commit 1000, Reserve 50 16] =
        outcomes (example_buffer False 1024 False)
          [Reserve 100 0, Commit 100, Reserve 1000 0, Commit 1000, Reserve 50 16]"
    unfolding example_buffer_def
    by (subst x(1), subst x(2)) (rule outcomes_independent_of_mapping_mode)
  with a show ?thesis by simp
qed

subsection \<open>Alignment\<close>

text \<open>
  C7, as the code has it. A \<^verbatim>\<open>Map(size, alignment)\<close> with \<open>alignment > 0\<close>, made at a
  cursor that is not negative and with cursor plus alignment within the signed 64-bit
  range, returns an offset that is a multiple of the alignment: when the call does not
  wrap, the offset is the next multiple of the alignment at or after the cursor (no
  multiple lies between the two), and when it wraps, the offset is 0. With alignment 0 a
  call that does not wrap returns the cursor as it was. The cursor after the call is the
  offset returned. The cursor is not negative after construction and after any calls
  whose sizes are not negative (lemma \<open>exec_cursor_nonneg\<close>).
\<close>

theorem Map_offset_aligned:
  assumes "0 \<le> buffer_pos s" and "buffer_pos s + alignment \<le> 2 ^ 63"
    and "Map s sz alignment = Inr ((p, off, invalidate), s')"
  shows "(0 < alignment \<longrightarrow>
            alignment dvd off \<and>
            (\<not> invalidate \<longrightarrow> buffer_pos s \<le> off \<and> off < buffer_pos s + alignment \<and>
               off = to_GLintptr (AlignUp (to_size_t (buffer_pos s)) alignment) \<and>
               (\<forall>m. alignment dvd m \<and> buffer_pos s \<le> m \<longrightarrow> off \<le> m))) \<and>
         (alignment = 0 \<longrightarrow> \<not> invalidate \<longrightarrow> off = buffer_pos s) \<and>
         (invalidate \<longrightarrow> off = 0) \<and>
         buffer_pos s' = off"
proof -
  note f = Map_Inr_fields(3,4,5) [OF assms(3)]
  have ap: "aligned_pos s alignment =
              (if alignment > 0 then AlignUp (buffer_pos s) alignment else buffer_pos s)"
    using assms(1) by (simp add: aligned_pos_def AlignUp_size_t_nonneg)
  have x: "to_GLintptr (AlignUp (to_size_t (buffer_pos s)) alignment) =
             AlignUp (buffer_pos s) alignment" if "0 < alignment"
  proof -
    have "AlignUp (buffer_pos s) alignment < 2 ^ 63"
      using AlignUp_less [OF that, of "buffer_pos s"] assms(2) by simp
    then show ?thesis
      using AlignUp_size_t_exact [OF that, of "buffer_pos s"] assms(1)
      by (simp add: AlignUp_size_t_nonneg)
  qed
  have a: "alignment dvd off" if "0 < alignment"
    using f that by (auto simp: ap AlignUp_dvd)
  have b: "buffer_pos s \<le> off \<and> off < buffer_pos s + alignment \<and>
           off = to_GLintptr (AlignUp (to_size_t (buffer_pos s)) alignment) \<and>
           (\<forall>m. alignment dvd m \<and> buffer_pos s \<le> m \<longrightarrow> off \<le> m)"
    if "0 < alignment" and "\<not> invalidate"
  proof -
    from f that have o: "off = AlignUp (buffer_pos s) alignment" by (simp add: ap)
    show ?thesis
      unfolding o using that(1) x [OF that(1)]
      by (auto simp: AlignUp_ge AlignUp_less AlignUp_least)
  qed
  have c: "off = buffer_pos s" if "alignment = 0" and "\<not> invalidate"
    using f that by (simp add: aligned_pos_def)
  have d: "off = 0" if "invalidate" using f that by simp
  from a b c d f(3) show ?thesis by blast
qed

theorem Map_offset_aligned_witness:
  "Map (after (example_buffer False 2048 False) [Reserve 1000 0, Commit 1000]) 50 16 =
     Inr ((Some 1008, 1008, False),
          after (example_buffer False 2048 False) [Reserve 1000 0, Commit 1000, Reserve 50 16]) \<and>
   buffer_pos (after (example_buffer False 2048 False) [Reserve 1000 0, Commit 1000]) = 1000 \<and>
   (16 :: int) dvd 1008 \<and>
   buffer_pos (after (example_buffer False 2048 False)
     [Reserve 1000 0, Commit 1000, Reserve 50 16]) = 1008"
proof -
  let ?s = "after (example_buffer False 2048 False) [Reserve 1000 0, Commit 1000]"
  let ?s1 = "after (example_buffer False 2048 False) [Reserve 1000 0, Commit 1000, Reserve 50 16]"
  have m: "Map ?s 50 16 = Inr ((Some 1008, 1008, False), ?s1)"
    by (simp add: run_defs ctor_defs gl_bits)
  have b: "buffer_pos ?s = 1000"
    by (simp add: run_defs ctor_defs)
  have h1: "0 \<le> buffer_pos ?s" by (simp add: b)
  have h2: "buffer_pos ?s + 16 \<le> 2 ^ 63" by (simp add: b)
  from Map_offset_aligned [OF h1 h2 m] have "(16 :: int) dvd 1008 \<and> buffer_pos ?s1 = 1008"
    by simp
  then show ?thesis using m b by simp
qed

text \<open>
  C7 as stated fails. The assertions accept a negative size, and \<^verbatim>\<open>Map(-1, 0)\<close>,
  \<^verbatim>\<open>Unmap(-1)\<close> on a new object of capacity 10 leaves the cursor at -1. The next
  \<^verbatim>\<open>Map(1, 3)\<close> aligns the cursor as the unsigned value \<open>2 ^ 64 - 1\<close>, which is a
  multiple of 3 already, and returns offset -1: not a multiple of 3, and not the next
  multiple of 3 after -1, which is 0.
\<close>

theorem negative_cursor_unaligned_counterexample:
  "outcomes (example_buffer True 10 False) [Reserve (-1) 0, Commit (-1), Reserve 1 3] =
     Inr [Reserved 0 False, Committed, Reserved (-1) False] \<and>
   buffer_pos (after (example_buffer True 10 False) [Reserve (-1) 0, Commit (-1)]) = -1 \<and>
   \<not> (3 :: int) dvd -1 \<and>
   outcomes (example_buffer False 10 False) [Reserve (-1) 0, Commit (-1), Reserve 1 3] =
     Inr [Reserved 0 False, Committed, Reserved (-1) False]"
  by (simp add: run_defs ctor_defs)

subsection \<open>The cursor stays in the buffer\<close>

text \<open>
  C8, as the code has it. For byte counts, which are not negative: the constructor leaves
  the cursor at 0 within \<open>[0, capacity]\<close>; a \<^verbatim>\<open>Map\<close> from a state with the cursor in
  \<open>[0, capacity]\<close> leaves the cursor there and the whole reservation
  \<open>[offset, offset + size)\<close> in the buffer; and the \<^verbatim>\<open>Unmap\<close> that follows that \<^verbatim>\<open>Map\<close>
  leaves the cursor in \<open>[0, capacity]\<close>, at the end of the committed bytes, which end at
  or before the capacity. No operation changes the capacity.
\<close>

theorem cursor_within_buffer:
  "(0 \<le> cap \<longrightarrow> cursor_inv (OGLStreamBuffer_ctor g target cap prefer_coherent)) \<and>
   (cursor_inv s \<and> 0 \<le> sz \<and> Map s sz alignment = Inr ((p, off, invalidate), s1) \<longrightarrow>
      cursor_inv s1 \<and> 0 \<le> off \<and> off + sz \<le> buffer_size s1 \<and>
      buffer_size s1 = buffer_size s) \<and>
   (cursor_inv s \<and> 0 \<le> csz \<and> Map s sz alignment = Inr ((p, off, invalidate), s1) \<and>
    Unmap s1 csz = Inr s2 \<longrightarrow>
      cursor_inv s2 \<and> buffer_pos s2 = off + csz \<and> off + csz \<le> buffer_size s2 \<and>
      buffer_size s2 = buffer_size s)"
proof -
  have step: "0 \<le> off \<and> off + sz \<le> buffer_size s \<and> buffer_pos s1 = off \<and>
              buffer_size s1 = buffer_size s \<and> mapped_size s1 = sz"
    if c: "cursor_inv s" and m: "Map s sz alignment = Inr ((p, off, invalidate), s1)"
  proof -
    have al: "0 \<le> aligned_pos s alignment"
      using c aligned_pos_ge [of s alignment] by (simp add: cursor_inv_def)
    note f = Map_Inr_fields [OF m]
    show ?thesis using f(3,4,5,6,7) f(1) al by (auto split: if_splits)
  qed
  show ?thesis
  proof (intro conjI impI)
    assume "0 \<le> cap"
    then show "cursor_inv (OGLStreamBuffer_ctor g target cap prefer_coherent)"
      by (simp add: cursor_inv_def ctor_fields)
  next
    assume a: "cursor_inv s \<and> 0 \<le> sz \<and> Map s sz alignment = Inr ((p, off, invalidate), s1)"
    then have st: "0 \<le> off \<and> off + sz \<le> buffer_size s \<and> buffer_pos s1 = off \<and>
              buffer_size s1 = buffer_size s \<and> mapped_size s1 = sz"
      using step by simp
    show "cursor_inv s1" using st a by (simp add: cursor_inv_def)
    show "0 \<le> off" using st by simp
    show "off + sz \<le> buffer_size s1" using st by simp
    show "buffer_size s1 = buffer_size s" using st by simp
  next
    assume a: "cursor_inv s \<and> 0 \<le> csz \<and> Map s sz alignment = Inr ((p, off, invalidate), s1) \<and>
      Unmap s1 csz = Inr s2"
    then have st: "0 \<le> off \<and> off + sz \<le> buffer_size s \<and> buffer_pos s1 = off \<and>
              buffer_size s1 = buffer_size s \<and> mapped_size s1 = sz"
      using step by simp
    from a have u: "Unmap s1 csz = Inr s2" by simp
    note h = Unmap_Inr_fields [OF u]
    show "cursor_inv s2" using st h(1,2,3) a by (simp add: cursor_inv_def)
    show "buffer_pos s2 = off + csz" using st h(2) by simp
    show "off + csz \<le> buffer_size s2" using st h(1,3) by simp
    show "buffer_size s2 = buffer_size s" using st h(3) by simp
  qed
qed

theorem cursor_within_buffer_witness:
  "cursor_inv (example_buffer True 1024 False) \<and>
   Map (example_buffer True 1024 False) 1000 16 =
     Inr ((Some 0, 0, False), after (example_buffer True 1024 False) [Reserve 1000 16]) \<and>
   cursor_inv (after (example_buffer True 1024 False) [Reserve 1000 16]) \<and>
   Unmap (after (example_buffer True 1024 False) [Reserve 1000 16]) 900 =
     Inr (after (example_buffer True 1024 False) [Reserve 1000 16, Commit 900]) \<and>
   cursor_inv (after (example_buffer True 1024 False) [Reserve 1000 16, Commit 900]) \<and>
   buffer_pos (after (example_buffer True 1024 False) [Reserve 1000 16, Commit 900]) = 900"
proof -
  let ?s = "example_buffer True 1024 False"
  let ?s1 = "after (example_buffer True 1024 False) [Reserve 1000 16]"
  let ?s2 = "after (example_buffer True 1024 False) [Reserve 1000 16, Commit 900]"
  have m: "Map ?s 1000 16 = Inr ((Some 0, 0, False), ?s1)"
    by (simp add: run_defs ctor_defs)
  have u: "Unmap ?s1 900 = Inr ?s2"
    by (simp add: run_defs ctor_defs)
  note c = cursor_within_buffer [of 1024 "example_context True" GL_ARRAY_BUFFER False
      ?s 1000 16 "Some 0" 0 False ?s1 900 ?s2, folded example_buffer_def]
  from c have i0: "cursor_inv ?s" by simp
  from c i0 m have i1: "cursor_inv ?s1" by simp
  from c i0 m u have i2: "cursor_inv ?s2 \<and> buffer_pos ?s2 = 900" by simp
  from i0 i1 i2 m u show ?thesis by simp
qed

text \<open>
  C8 as stated fails. On capacity 10, \<^verbatim>\<open>Map(6, 0)\<close>, \<^verbatim>\<open>Unmap(6)\<close>, \<^verbatim>\<open>Unmap(6)\<close> is
  accepted (the assertion of \<^verbatim>\<open>Unmap\<close> compares with the size of the last \<^verbatim>\<open>Map\<close>
  only) and leaves the cursor at 12, past the capacity; and \<^verbatim>\<open>Map(-1, 0)\<close>,
  \<^verbatim>\<open>Unmap(-1)\<close> is accepted and leaves the cursor at -1.
\<close>

theorem cursor_leaves_buffer_counterexample:
  "outcomes (example_buffer True 10 False) [Reserve 6 0, Commit 6, Commit 6] =
     Inr [Reserved 0 False, Committed, Committed] \<and>
   buffer_pos (after (example_buffer True 10 False) [Reserve 6 0, Commit 6, Commit 6]) = 12 \<and>
   buffer_size (after (example_buffer True 10 False) [Reserve 6 0, Commit 6, Commit 6]) = 10 \<and>
   \<not> cursor_inv (after (example_buffer True 10 False) [Reserve 6 0, Commit 6, Commit 6]) \<and>
   outcomes (example_buffer True 10 False) [Reserve (-1) 0, Commit (-1)] =
     Inr [Reserved 0 False, Committed] \<and>
   buffer_pos (after (example_buffer True 10 False) [Reserve (-1) 0, Commit (-1)]) = -1 \<and>
   \<not> cursor_inv (after (example_buffer True 10 False) [Reserve (-1) 0, Commit (-1)])"
  by (simp add: run_defs ctor_defs cursor_inv_def)

subsection \<open>Storage of twice the capacity\<close>

text \<open>
  C9. The constructor allocates device storage of exactly twice the requested capacity,
  with \<^verbatim>\<open>glBufferStorage\<close> in persistent mode and \<^verbatim>\<open>glBufferData\<close> in fallback mode.
  \<^verbatim>\<open>GetSize\<close> returns the requested capacity after construction and after any run of
  \<^verbatim>\<open>Map\<close> and \<^verbatim>\<open>Unmap\<close> calls, and the wraparound check of \<^verbatim>\<open>Map\<close> compares against
  the requested capacity, not against the size of the storage.
\<close>

theorem storage_doubled_capacity_kept:
  "(GLAD_GL_ARB_buffer_storage g \<longrightarrow>
      (\<exists>flags access. calls (gl (OGLStreamBuffer_ctor g target cap prefer_coherent)) =
         calls g @ [GenBuffers (fresh_name g), BindBuffer target (fresh_name g),
                    BufferStorage target (2 * cap) flags, MapBufferRange target 0 cap access])) \<and>
   (\<not> GLAD_GL_ARB_buffer_storage g \<longrightarrow>
      calls (gl (OGLStreamBuffer_ctor g target cap prefer_coherent)) =
        calls g @ [GenBuffers (fresh_name g), BindBuffer target (fresh_name g),
                   BufferData target (2 * cap) GL_STREAM_DRAW]) \<and>
   GetSize (OGLStreamBuffer_ctor g target cap prefer_coherent) = cap \<and>
   (exec (OGLStreamBuffer_ctor g target cap prefer_coherent) cs = Inr (os, s) \<longrightarrow>
      GetSize s = cap \<and>
      (Map s sz alignment = Inr ((p, off, invalidate), s') \<longrightarrow>
         invalidate = (cap < aligned_pos s alignment + sz) \<and> GetSize s' = cap) \<and>
      (Unmap s csz = Inr s'' \<longrightarrow> GetSize s'' = cap))"
proof (intro conjI impI)
  assume "GLAD_GL_ARB_buffer_storage g"
  then show "\<exists>flags access. calls (gl (OGLStreamBuffer_ctor g target cap prefer_coherent)) =
         calls g @ [GenBuffers (fresh_name g), BindBuffer target (fresh_name g),
                    BufferStorage target (2 * cap) flags, MapBufferRange target 0 cap access]"
    by (simp add: ctor_defs Hack_def)
next
  assume "\<not> GLAD_GL_ARB_buffer_storage g"
  then show "calls (gl (OGLStreamBuffer_ctor g target cap prefer_coherent)) =
        calls g @ [GenBuffers (fresh_name g), BindBuffer target (fresh_name g),
                   BufferData target (2 * cap) GL_STREAM_DRAW]"
    by (simp add: ctor_defs Hack_def)
next
  show "GetSize (OGLStreamBuffer_ctor g target cap prefer_coherent) = cap"
    by (simp add: GetSize_def ctor_fields)
next
  assume e: "exec (OGLStreamBuffer_ctor g target cap prefer_coherent) cs = Inr (os, s)"
  from exec_fixed_members [OF e] show c: "GetSize s = cap"
    by (simp add: GetSize_def ctor_fields)
  {
    assume m: "Map s sz alignment = Inr ((p, off, invalidate), s')"
    from Map_Inr_fields(3) [OF m] c
    show "invalidate = (cap < aligned_pos s alignment + sz)" by (simp add: GetSize_def)
    from Map_Inr_fields(6) [OF m] c show "GetSize s' = cap" by (simp add: GetSize_def)
  }
  {
    assume u: "Unmap s csz = Inr s''"
    from Unmap_Inr_fields(3) [OF u] c show "GetSize s'' = cap" by (simp add: GetSize_def)
  }
qed

theorem storage_doubled_capacity_kept_witness:
  "(\<exists>flags access. calls (gl (example_buffer True 1024 False)) =
      [GenBuffers 1, BindBuffer GL_ARRAY_BUFFER 1, BufferStorage GL_ARRAY_BUFFER 2048 flags,
       MapBufferRange GL_ARRAY_BUFFER 0 1024 access]) \<and>
   calls (gl (example_buffer False 1024 False)) =
     [GenBuffers 1, BindBuffer GL_ARRAY_BUFFER 1,
      BufferData GL_ARRAY_BUFFER 2048 GL_STREAM_DRAW] \<and>
   GetSize (example_buffer True 1024 False) = 1024 \<and>
   GetSize (after (example_buffer True 1024 False) [Reserve 100 0, Commit 100]) = 1024 \<and>
   Map (after (example_buffer True 1024 False) [Reserve 100 0, Commit 100]) 1000 0 =
     Inr ((Some 0, 0, True),
          after (example_buffer True 1024 False) [Reserve 100 0, Commit 100, Reserve 1000 0]) \<and>
   GetSize (after (example_buffer True 1024 False)
     [Reserve 100 0, Commit 100, Reserve 1000 0]) = 1024"
proof -
  let ?s = "after (example_buffer True 1024 False) [Reserve 100 0, Commit 100]"
  let ?s1 = "after (example_buffer True 1024 False) [Reserve 100 0, Commit 100, Reserve 1000 0]"
  have g: "GLAD_GL_ARB_buffer_storage (example_context True)"
    "\<not> GLAD_GL_ARB_buffer_storage (example_context False)"
    "calls (example_context True) = []" "calls (example_context False) = []"
    "fresh_name (example_context True) = 1" "fresh_name (example_context False) = 1"
    by (simp_all add: example_context_def)
  have e: "exec (example_buffer True 1024 False) [Reserve 100 0, Commit 100] =
             Inr ([Reserved 0 False, Committed], ?s)"
    by (simp add: run_defs ctor_defs)
  have m: "Map ?s 1000 0 = Inr ((Some 0, 0, True), ?s1)"
    by (simp add: run_defs ctor_defs)
  note a = storage_doubled_capacity_kept [of "example_context True" GL_ARRAY_BUFFER 1024 False
      "[Reserve 100 0, Commit 100]" "[Reserved 0 False, Committed]" ?s 1000 0 "Some 0" 0 True ?s1
      0 ?s, folded example_buffer_def]
  note b = storage_doubled_capacity_kept [of "example_context False" GL_ARRAY_BUFFER 1024 False
      "[]" "[]" "example_buffer False 1024 False" 0 0 None 0 False ?s 0 ?s,
      folded example_buffer_def]
  from a g have a1: "\<exists>flags access. calls (gl (example_buffer True 1024 False)) =
      [GenBuffers 1, BindBuffer GL_ARRAY_BUFFER 1, BufferStorage GL_ARRAY_BUFFER 2048 flags,
       MapBufferRange GL_ARRAY_BUFFER 0 1024 access]" by simp
  from b g have b1: "calls (gl (example_buffer False 1024 False)) =
     [GenBuffers 1, BindBuffer GL_ARRAY_BUFFER 1,
      BufferData GL_ARRAY_BUFFER 2048 GL_STREAM_DRAW]" by simp
  from a e m have a2: "GetSize (example_buffer True 1024 False) = 1024 \<and>
    GetSize ?s = 1024 \<and> GetSize ?s1 = 1024" by simp
  from a1 b1 a2 m show ?thesis by simp
qed

subsection \<open>Fallback mode is never coherent\<close>

text \<open>
  C10. An object constructed without the extension is not coherent and not persistent,
  whatever coherence preference the constructor was given, and stays so through any run
  of calls: the constructor sets the two flags in the persistent branch only. Every
  \<^verbatim>\<open>Unmap\<close> of such an object therefore makes the explicit flush, and then unmaps.
\<close>

theorem fallback_never_coherent:
  assumes "\<not> GLAD_GL_ARB_buffer_storage g"
    and "exec (OGLStreamBuffer_ctor g target cap prefer_coherent) cs = Inr (os, s)"
  shows "\<not> coherent (OGLStreamBuffer_ctor g target cap prefer_coherent) \<and>
         \<not> coherent s \<and> \<not> persistent s \<and>
         (Unmap s csz = Inr s' \<longrightarrow>
            calls (gl s') = calls (gl s) @
              [FlushMappedBufferRange target (buffer_pos s - mapped_offset s) csz,
               UnmapBuffer target])"
proof -
  from exec_fixed_members [OF assms(2)] assms(1)
  have f: "\<not> coherent s" "\<not> persistent s" "gl_target s = target"
    by (simp_all add: ctor_fields)
  have "calls (gl s') = calls (gl s) @
              [FlushMappedBufferRange target (buffer_pos s - mapped_offset s) csz,
               UnmapBuffer target]" if "Unmap s csz = Inr s'"
    using that f
    by (auto simp: Unmap_def Let_def glFlushMappedBufferRange_def glUnmapBuffer_def
        split: if_splits)
  then show ?thesis using f assms(1) by (simp add: ctor_fields)
qed

theorem fallback_never_coherent_witness:
  "\<not> GLAD_GL_ARB_buffer_storage (example_context False) \<and>
   \<not> coherent (example_buffer False 1024 True) \<and>
   \<not> coherent (after (example_buffer False 1024 True) [Reserve 100 0]) \<and>
   calls (gl (after (example_buffer False 1024 True) [Reserve 100 0, Commit 60])) =
     calls (gl (after (example_buffer False 1024 True) [Reserve 100 0])) @
       [FlushMappedBufferRange GL_ARRAY_BUFFER 0 60, UnmapBuffer GL_ARRAY_BUFFER]"
proof -
  let ?s = "after (example_buffer False 1024 True) [Reserve 100 0]"
  let ?s1 = "after (example_buffer False 1024 True) [Reserve 100 0, Commit 60]"
  have g: "\<not> GLAD_GL_ARB_buffer_storage (example_context False)"
    by (simp add: example_context_def)
  have e: "exec (OGLStreamBuffer_ctor (example_context False) GL_ARRAY_BUFFER 1024 True)
             [Reserve 100 0] = Inr ([Reserved 0 False], ?s)"
    by (simp add: run_defs ctor_defs)
  have u: "Unmap ?s 60 = Inr ?s1"
    by (simp add: run_defs ctor_defs)
  have b: "buffer_pos ?s = 0" "mapped_offset ?s = 0"
    by (simp_all add: run_defs ctor_defs)
  show ?thesis
    using fallback_never_coherent [OF g e, of 60 ?s1, folded example_buffer_def] g u b
    by simp
qed

end
